theory Spec2Isabelle
  imports Complex_Main "HOL-Library.List_Lexorder" "HOL-Library.Char_ord"
begin

section \<open>Numbers and rows\<close>

text \<open>
  A JavaScript number is \<open>NaN\<close>, one of the two infinities, or a finite double, which
  is modelled as the real it denotes (the two zeros are one). The relational operators
  are exact on doubles; they are false as soon as one operand is \<open>NaN\<close>, and
  \<open>a <= b\<close> is \<open>!(b < a)\<close> on the other operands. Addition and division round,
  and are parameters of the functions that use them.
\<close>

datatype jsnum = NaN | NInf | Num real | PInf

definition isNaN :: "jsnum \<Rightarrow> bool" where
  "isNaN n = (n = NaN)"

fun num_lt :: "jsnum \<Rightarrow> jsnum \<Rightarrow> bool" where
  "num_lt NaN b = False"
| "num_lt a NaN = False"
| "num_lt a NInf = False"
| "num_lt NInf b = True"
| "num_lt PInf b = False"
| "num_lt a PInf = True"
| "num_lt (Num x) (Num y) = (x < y)"

definition num_le :: "jsnum \<Rightarrow> jsnum \<Rightarrow> bool" where
  "num_le a b = (\<not> isNaN a \<and> \<not> isNaN b \<and> \<not> num_lt b a)"

definition num_gt :: "jsnum \<Rightarrow> jsnum \<Rightarrow> bool" where
  "num_gt a b = num_lt b a"

type_synonym Crop = string

text \<open>
  \<open>TelemRow\<close> (type.ts) and \<open>HistRow\<close> (Analytics) carry the same seven sensor
  channels and a crop; the shared fields are declared once and both rows extend them.
  A channel is \<open>None\<close> for \<open>null\<close>/\<open>undefined\<close> and \<open>Some n\<close> for the result
  of \<open>Number(raw)\<close> otherwise.
\<close>

record Sens =
  ph :: "jsnum option"
  moist_pct :: "jsnum option"
  temp_c :: "jsnum option"
  ec_ms :: "jsnum option"
  n_mgkg :: "jsnum option"
  p_mgkg :: "jsnum option"
  k_mgkg :: "jsnum option"

record CropRow = Sens +
  crop :: Crop

record TelemRow = CropRow +
  dev_id :: string
  upd_at :: string

record HistRow = CropRow +
  bkt_30m :: string

record Dev =
  id_dev :: string
  name_dev :: string
  ing_tok :: string
  cur_crop :: "Crop option"

text \<open>The dynamic property read \<open>row[p.key]\<close>.\<close>

definition row_get :: "'a Sens_scheme \<Rightarrow> string \<Rightarrow> jsnum option" where
  "row_get r k =
     (if k = ''moist_pct'' then moist_pct r
      else if k = ''temp_c'' then temp_c r
      else if k = ''ec_ms'' then ec_ms r
      else if k = ''ph'' then ph r
      else if k = ''n_mgkg'' then n_mgkg r
      else if k = ''p_mgkg'' then p_mgkg r
      else if k = ''k_mgkg'' then k_mgkg r
      else None)"

section \<open>Live page: configuration and advisory strings\<close>

text \<open>The \<open>icon\<close> and \<open>short\<close> fields of \<open>PARAMS\<close> are used by the bar cards only.\<close>

record ParamCfg =
  key :: string
  label :: string
  unit :: "string option"

definition PARAMS :: "ParamCfg list" where
  "PARAMS =
    [\<lparr>key = ''moist_pct'', label = ''Moisture'', unit = Some ''%''\<rparr>,
     \<lparr>key = ''temp_c'', label = ''Temperature'',
        unit = Some [CHR 0xC2, CHR 0xAC, CHR 0xE2, CHR 0x88, CHR 0x9E, CHR ''C'']\<rparr>,
     \<lparr>key = ''ec_ms'', label = ''EC'', unit = Some ''mS/cm''\<rparr>,
     \<lparr>key = ''ph'', label = ''pH'', unit = None\<rparr>,
     \<lparr>key = ''n_mgkg'', label = ''Nitrogen'', unit = Some ''mg/kg''\<rparr>,
     \<lparr>key = ''p_mgkg'', label = ''Phosphorus'', unit = Some ''mg/kg''\<rparr>,
     \<lparr>key = ''k_mgkg'', label = ''Potassium'', unit = Some ''mg/kg''\<rparr>]"

record ThrRow =
  thr_crop :: Crop
  param :: string
  val_min :: jsnum
  val_max :: jsnum
  thr_unit :: string
  descr :: "string option"

record AltRec =
  soil_param :: string
  reading_range :: string
  recommended_crop :: string

text \<open>The bytes of the bullet and of the dash as they stand in the source file.\<close>

definition bullet :: string where
  "bullet = [CHR 0xE2, CHR 0x80, CHR 0x9A, CHR 0xC3, CHR 0x84, CHR 0xC2, CHR 0xA2]"

definition dash :: string where
  "dash = [CHR 0xE2, CHR 0x80, CHR 0x9A, CHR 0xC3, CHR 0x84, CHR 0xC3, CHR 0xAC]"

definition hot_soil :: string where
  "hot_soil = ''>30'' @ [CHR 0xC2, CHR 0xAC, CHR 0xE2, CHR 0x88, CHR 0x9E] @ '' C (hot soil)''"

text \<open>\<open>Array.prototype.join\<close>.\<close>

fun join :: "string \<Rightarrow> string list \<Rightarrow> string" where
  "join sep [] = []"
| "join sep [x] = x"
| "join sep (x # y # ys) = x @ sep @ join sep (y # ys)"

text \<open>\<open>thr.unit || p.unit || ''\<close>: the first non-empty string.\<close>

definition unit_of :: "ThrRow \<Rightarrow> ParamCfg \<Rightarrow> string" where
  "unit_of thr p =
     (if thr_unit thr \<noteq> [] then thr_unit thr
      else (case unit p of Some u \<Rightarrow> u | None \<Rightarrow> []))"

text \<open>
  The template literal pushed onto \<open>issues\<close>; \<open>dir\<close> is \<open>LOW\<close> or \<open>HIGH\<close>.
  \<open>ts\<close> is the number-to-string conversion of the language, a parameter of the model.
\<close>

definition issue_line ::
  "(jsnum \<Rightarrow> string) \<Rightarrow> ParamCfg \<Rightarrow> string \<Rightarrow> jsnum \<Rightarrow> ThrRow \<Rightarrow> string" where
  "issue_line ts p dir numVal thr =
     (let u = unit_of thr p;
          baseDesc = (case descr thr of Some d \<Rightarrow> d | None \<Rightarrow> [])
      in bullet @ '' '' @ label p @ '' is '' @ dir @ '' ('' @ ts numVal
         @ (if u \<noteq> [] then '' '' @ u else [])
         @ ''; optimal '' @ ts (val_min thr) @ dash @ ts (val_max thr) @ '' '' @ u
         @ ''). '' @ baseDesc @ ''<br>'')"

text \<open>
  The body of the \<open>PARAMS.forEach\<close> callback of \<open>buildCropReco\<close>: the line it pushes,
  or \<open>None\<close> when it pushes nothing.
\<close>

definition crop_issue ::
  "(jsnum \<Rightarrow> string) \<Rightarrow> 'a Sens_scheme \<Rightarrow> (string \<rightharpoonup> ThrRow) \<Rightarrow> ParamCfg \<Rightarrow> string option" where
  "crop_issue ts t thrs p =
     (case row_get t (key p) of
        None \<Rightarrow> None
      | Some numVal \<Rightarrow>
          if isNaN numVal then None
          else (case thrs (key p) of
                  None \<Rightarrow> None
                | Some thr \<Rightarrow>
                    if num_lt numVal (val_min thr) then Some (issue_line ts p ''LOW'' numVal thr)
                    else if num_gt numVal (val_max thr) then Some (issue_line ts p ''HIGH'' numVal thr)
                    else None))"

definition crop_step ::
  "(jsnum \<Rightarrow> string) \<Rightarrow> 'a Sens_scheme \<Rightarrow> (string \<rightharpoonup> ThrRow) \<Rightarrow> string list \<Rightarrow> ParamCfg \<Rightarrow> string list" where
  "crop_step ts t thrs issues p =
     (case crop_issue ts t thrs p of None \<Rightarrow> issues | Some l \<Rightarrow> issues @ [l])"

definition crop_issues ::
  "(jsnum \<Rightarrow> string) \<Rightarrow> 'a Sens_scheme \<Rightarrow> (string \<rightharpoonup> ThrRow) \<Rightarrow> ParamCfg list \<Rightarrow> string list" where
  "crop_issues ts t thrs ps = foldl (crop_step ts t thrs) [] ps"

definition waiting_crop :: string where
  "waiting_crop = ''Waiting for real-time sensor data. Once readings are available, this area will highlight which parameters are below or above the optimal range for the selected crop.''"

definition well_crop :: string where
  "well_crop = bullet @ '' The selected crop is doing well. Maintain your current practices.''"

text \<open>\<open>buildCropReco\<close> as a function of the two state variables it reads.\<close>

definition cropReco ::
  "(jsnum \<Rightarrow> string) \<Rightarrow> TelemRow option \<Rightarrow> (string \<rightharpoonup> ThrRow) \<Rightarrow> string" where
  "cropReco ts tel thrs =
     (case tel of
        None \<Rightarrow> waiting_crop
      | Some t \<Rightarrow>
          (let issues = crop_issues ts t thrs PARAMS
           in if issues = [] then well_crop else join [CHR 0x0A] issues))"

text \<open>
  \<open>if (altCrop && !recommendedCrops.includes(altCrop.recommended_crop)) push\<close>.
\<close>

definition add_alt :: "AltRec option \<Rightarrow> string list \<Rightarrow> string list" where
  "add_alt a rcs =
     (case a of
        None \<Rightarrow> rcs
      | Some r \<Rightarrow> if recommended_crop r \<in> set rcs then rcs else rcs @ [recommended_crop r])"

definition find_alt :: "AltRec list \<Rightarrow> string \<Rightarrow> string \<Rightarrow> AltRec option" where
  "find_alt alts sp rr = List.find (\<lambda>r. soil_param r = sp \<and> reading_range r = rr) alts"

text \<open>The body of the \<open>PARAMS.forEach\<close> callback of \<open>buildAltReco\<close>.\<close>

definition alt_step ::
  "'a Sens_scheme \<Rightarrow> (string \<rightharpoonup> ThrRow) \<Rightarrow> AltRec list \<Rightarrow> string list \<Rightarrow> ParamCfg \<Rightarrow> string list" where
  "alt_step t thrs alts rcs p =
     (case row_get t (key p) of
        None \<Rightarrow> rcs
      | Some numVal \<Rightarrow>
          if isNaN numVal then rcs
          else (case thrs (key p) of
                  None \<Rightarrow> rcs
                | Some thr \<Rightarrow>
                    (let r1 = (if key p = ''moist_pct'' \<and> num_lt numVal (Num 40)
                               then add_alt (find_alt alts ''Soil Moisture'' ''<40% (dry)'') rcs
                               else rcs);
                         r2 = (if key p = ''ec_ms'' \<and> num_gt numVal (Num 2)
                               then add_alt (find_alt alts ''EC'' ''High EC (>2.0 mS/cm)'') r1
                               else r1);
                         r3 = (if key p = ''temp_c'' \<and> num_gt numVal (Num 30)
                               then add_alt (find_alt alts ''Soil Temperature'' hot_soil) r2
                               else r2)
                     in r3)))"

definition alt_crops ::
  "'a Sens_scheme \<Rightarrow> (string \<rightharpoonup> ThrRow) \<Rightarrow> AltRec list \<Rightarrow> ParamCfg list \<Rightarrow> string list" where
  "alt_crops t thrs alts ps = foldl (alt_step t thrs alts) [] ps"

definition waiting_alt :: string where
  "waiting_alt = ''Alternative crop suggestions will appear here once stable soil readings are available. For now, focus on reaching the optimal ranges for the selected crop.''"

definition well_alt :: string where
  "well_alt = bullet @ '' The selected crop is doing well. If issues arise, consider alternative crops like Lemongrass or Okra based on soil conditions.''"

definition altReco ::
  "TelemRow option \<Rightarrow> (string \<rightharpoonup> ThrRow) \<Rightarrow> AltRec list \<Rightarrow> string" where
  "altReco tel thrs alts =
     (case tel of
        None \<Rightarrow> waiting_alt
      | Some t \<Rightarrow>
          (let recommendedCrops = alt_crops t thrs alts PARAMS
           in if recommendedCrops = [] then well_alt
              else bullet @ '' Based on your current soil conditions, consider switching to one of the following alternative crops: ''
                   @ join '', '' recommendedCrops @ ''.''))"

section \<open>Analytics page: summary statistics\<close>

record SumParam =
  s_key :: string
  s_label :: string
  s_unit :: string

record SumStat = SumParam +
  s_min :: "jsnum option"
  s_max :: "jsnum option"
  s_avg :: "jsnum option"
  s_last :: "jsnum option"

definition SUM_PARAMS :: "SumParam list" where
  "SUM_PARAMS =
    [\<lparr>s_key = ''moist_pct'', s_label = ''Moisture'', s_unit = ''%''\<rparr>,
     \<lparr>s_key = ''temp_c'', s_label = ''Temp'', s_unit = [CHR 0xC2, CHR 0xB0, CHR ''C'']\<rparr>,
     \<lparr>s_key = ''ec_ms'', s_label = ''EC'', s_unit = ''mS/cm''\<rparr>,
     \<lparr>s_key = ''ph'', s_label = ''pH'', s_unit = []\<rparr>,
     \<lparr>s_key = ''n_mgkg'', s_label = ''N'', s_unit = ''mg/kg''\<rparr>,
     \<lparr>s_key = ''p_mgkg'', s_label = ''P'', s_unit = ''mg/kg''\<rparr>,
     \<lparr>s_key = ''k_mgkg'', s_label = ''K'', s_unit = ''mg/kg''\<rparr>]"

text \<open>The filter predicate \<open>v !== null && !Number.isNaN(v)\<close>, returning the number kept.\<close>

fun kept :: "jsnum option \<Rightarrow> jsnum option" where
  "kept None = None"
| "kept (Some n) = (if isNaN n then None else Some n)"

text \<open>\<open>rows.map((r) => r[p.key]).filter(...)\<close>.\<close>

definition vals_of :: "'a Sens_scheme list \<Rightarrow> string \<Rightarrow> jsnum list" where
  "vals_of rs k = List.map_filter kept (map (\<lambda>r. row_get r k) rs)"

text \<open>\<open>Math.min\<close> and \<open>Math.max\<close> of two numbers, neither of them \<open>NaN\<close>.\<close>

definition num_min :: "jsnum \<Rightarrow> jsnum \<Rightarrow> jsnum" where
  "num_min a b = (if num_lt b a then b else a)"

definition num_max :: "jsnum \<Rightarrow> jsnum \<Rightarrow> jsnum" where
  "num_max a b = (if num_lt a b then b else a)"

text \<open>
  One element of \<open>SUM_PARAMS.map\<close>. \<open>Math.min(...vals)\<close> and \<open>Math.max(...vals)\<close> are
  only reached with a non-empty \<open>vals\<close>; \<open>typeof lastRaw === 'number'\<close> holds for every
  number, \<open>NaN\<close> included. \<open>fadd\<close> and \<open>fdiv\<close> are the addition and the division of
  doubles (IEEE 754 binary64, round to nearest), parameters of the model: the sum is
  accumulated from 0 left to right, and divided once by the count.
\<close>

definition stat_of ::
  "(jsnum \<Rightarrow> jsnum \<Rightarrow> jsnum) \<Rightarrow> (jsnum \<Rightarrow> jsnum \<Rightarrow> jsnum) \<Rightarrow> HistRow list \<Rightarrow> SumParam \<Rightarrow> SumStat" where
  "stat_of fadd fdiv rs p =
     (case vals_of rs (s_key p) of
        [] \<Rightarrow> \<lparr>s_key = s_key p, s_label = s_label p, s_unit = s_unit p,
               s_min = None, s_max = None, s_avg = None, s_last = None\<rparr>
      | v # vs \<Rightarrow>
          (let mn = foldl num_min v vs;
               mx = foldl num_max v vs;
               sm = foldl fadd (Num 0) (v # vs);
               avg = fdiv sm (Num (real (length (v # vs))));
               lastRaw = row_get (last rs) (s_key p)
           in \<lparr>s_key = s_key p, s_label = s_label p, s_unit = s_unit p,
                s_min = Some mn, s_max = Some mx, s_avg = Some avg,
                s_last = lastRaw\<rparr>))"

definition stats ::
  "(jsnum \<Rightarrow> jsnum \<Rightarrow> jsnum) \<Rightarrow> (jsnum \<Rightarrow> jsnum \<Rightarrow> jsnum) \<Rightarrow> HistRow list \<Rightarrow> SumStat list" where
  "stats fadd fdiv rs = (if rs = [] then [] else map (stat_of fadd fdiv rs) SUM_PARAMS)"

section \<open>Asynchronous loads\<close>

text \<open>The \<open>{ data, error }\<close> pair a query resolves to.\<close>

datatype 'a result = Err | Data 'a

text \<open>Removing the load that has just resolved from the loads in flight.\<close>

definition drop_nth :: "nat \<Rightarrow> 'a list \<Rightarrow> 'a list" where
  "drop_nth k xs = take k xs @ drop (Suc k) xs"

section \<open>Analytics page: state\<close>

datatype TimeWin = W24h | W7d | W30d

text \<open>
  The component state (\<open>crop\<close>, \<open>win\<close>, \<open>rows\<close>, \<open>loading\<close>) together with the
  history loads in flight, each with the crop and window its effect closed over, and the
  console. The effect has no cleanup and no cancellation flag.
\<close>

record Analytics =
  an_crop :: Crop
  win :: TimeWin
  rows :: "HistRow list"
  an_loading :: bool
  hist_loads :: "(Crop \<times> TimeWin) list"
  an_log :: "string list"

datatype an_event =
    ASetCrop Crop
  | ASetWin TimeWin
  | HistDone nat "HistRow list result"

definition an_init :: Analytics where
  "an_init = \<lparr>an_crop = ''pechay'', win = W24h, rows = [], an_loading = True,
              hist_loads = [(''pechay'', W24h)], an_log = []\<rparr>"

text \<open>
  A state setter with an unchanged value does not re-render; a changed dependency runs the
  effect again, which sets \<open>loading\<close> and issues a query.
\<close>

fun an_step :: "Analytics \<Rightarrow> an_event \<Rightarrow> Analytics" where
  "an_step s (ASetCrop c) =
     (if c = an_crop s then s
      else s\<lparr>an_crop := c, an_loading := True, hist_loads := hist_loads s @ [(c, win s)]\<rparr>)"
| "an_step s (ASetWin w) =
     (if w = win s then s
      else s\<lparr>win := w, an_loading := True, hist_loads := hist_loads s @ [(an_crop s, w)]\<rparr>)"
| "an_step s (HistDone k res) =
     (if k < length (hist_loads s) then
        (let s1 = s\<lparr>hist_loads := drop_nth k (hist_loads s)\<rparr>
         in case res of
              Err \<Rightarrow> s1\<lparr>rows := [], an_log := an_log s1 @ [''err_load_hist''], an_loading := False\<rparr>
            | Data d \<Rightarrow> s1\<lparr>rows := d, an_loading := False\<rparr>)
      else s)"

definition an_run :: "Analytics \<Rightarrow> an_event list \<Rightarrow> Analytics" where
  "an_run s es = foldl an_step s es"

section \<open>Live page: state\<close>

text \<open>
  A load in flight of an effect that keeps a \<open>cancelled\<close> flag: the crop the effect
  closed over, and the flag its cleanup sets.
\<close>

record Load =
  origin :: Crop
  cancelled :: bool

text \<open>A chart point; the locale rendering of the bucket time is not modelled.\<close>

record ChartPt = Sens +
  pt_t :: string

definition chart_pt :: "HistRow \<Rightarrow> ChartPt" where
  "chart_pt r = \<lparr>ph = ph r, moist_pct = moist_pct r, temp_c = temp_c r, ec_ms = ec_ms r,
                 n_mgkg = n_mgkg r, p_mgkg = p_mgkg r, k_mgkg = k_mgkg r, pt_t = bkt_30m r\<rparr>"

text \<open>
  The component state of \<open>Live\<close> (the selected crop is \<open>sel\<close>), then what is in flight:
  the loads of effects 3 and 5 with their flags, the chart fetches (no flag), the crop
  the handlers of the open channel closed over (the crop of the latest run of the
  effects that depend on \<open>crop\<close>, which all run together), the device and alt-crop
  loads, the preference writes, and the console (the messages of \<open>console.error\<close>).
\<close>

record Live =
  dev :: "Dev option"
  sel :: Crop
  telem :: "TelemRow option"
  loading :: bool
  thrMap :: "string \<rightharpoonup> ThrRow"
  altCropRecommendations :: "AltRec list"
  chartData :: "ChartPt list"
  snap_loads :: "Load list"
  thr_loads :: "Load list"
  chart_loads :: "Crop list"
  channel :: Crop
  dev_load :: bool
  alt_load :: bool
  writes :: "Crop list"
  console :: "string list"

datatype live_event =
    DevLoaded "Dev option result"
  | CropChange Crop
  | WriteDone bool
  | SnapDone nat "TelemRow option result"
  | Push TelemRow
  | ThrDone nat "ThrRow list result"
  | AltDone "AltRec list result"
  | ChartDone nat "HistRow list result"
  | Effects

text \<open>The page once mounted: the effects have run for the initial crop.\<close>

definition live_init :: Live where
  "live_init = \<lparr>dev = None, sel = ''pechay'', telem = None, loading = True,
     thrMap = Map.empty, altCropRecommendations = [], chartData = [],
     snap_loads = [\<lparr>origin = ''pechay'', cancelled = False\<rparr>],
     thr_loads = [\<lparr>origin = ''pechay'', cancelled = False\<rparr>],
     chart_loads = [''pechay''], channel = ''pechay'',
     dev_load = True, alt_load = True, writes = [], console = []\<rparr>"

definition cancel :: "Load \<Rightarrow> Load" where
  "cancel l = l\<lparr>cancelled := True\<rparr>"

text \<open>
  \<open>setCrop(c)\<close> sets the state variable and nothing else: the render that follows
  sees the new crop, the cleanups and the effects run later.
\<close>

definition setCrop :: "Crop \<Rightarrow> Live \<Rightarrow> Live" where
  "setCrop c s = s\<lparr>sel := c\<rparr>"

text \<open>
  The effects that depend on \<open>crop\<close>, run after a commit: with the crop of their latest
  run nothing happens; otherwise the cleanups of effects 3 and 5 set their flags, the
  old channel is removed, and the four effects run again for the selected crop.
\<close>

definition run_effects :: "Live \<Rightarrow> Live" where
  "run_effects s =
     (if channel s = sel s then s
      else s\<lparr>snap_loads := map cancel (snap_loads s) @ [\<lparr>origin = sel s, cancelled = False\<rparr>],
             thr_loads := map cancel (thr_loads s) @ [\<lparr>origin = sel s, cancelled = False\<rparr>],
             chart_loads := chart_loads s @ [sel s],
             channel := sel s\<rparr>)"

text \<open>
  \<open>handleCropChange\<close> up to its \<open>await\<close>: the selection is set, then the write is issued
  when a device row is known.
\<close>

definition handleCropChange :: "Crop \<Rightarrow> Live \<Rightarrow> Live" where
  "handleCropChange newCrop s =
     (let s1 = setCrop newCrop s
      in case dev s1 of
           None \<Rightarrow> s1
         | Some d \<Rightarrow> s1\<lparr>writes := writes s1 @ [newCrop]\<rparr>)"

text \<open>The \<open>forEach\<close> that fills the threshold map: a later row of a parameter wins.\<close>

definition thr_map_of :: "ThrRow list \<Rightarrow> (string \<rightharpoonup> ThrRow)" where
  "thr_map_of d = foldl (\<lambda>m r. m(param r \<mapsto> r)) Map.empty d"

text \<open>
  One event of the page. The crop selector is disabled while \<open>loading\<close>; a truthy
  \<open>cur_crop\<close> is a non-empty string. \<open>Effects\<close> is the run of the effects of the
  last commit; any other event may come before it, and then sees the flags and the
  channel of the previous run.
\<close>

fun live_step :: "Live \<Rightarrow> live_event \<Rightarrow> Live" where
  "live_step s (DevLoaded res) =
     (if dev_load s then
        (case res of
           Err \<Rightarrow> s\<lparr>console := console s @ [''Error loading device:''], loading := False, dev_load := False\<rparr>
         | Data None \<Rightarrow> s\<lparr>loading := False, dev_load := False\<rparr>
         | Data (Some d) \<Rightarrow>
             (let s1 = s\<lparr>dev := Some d\<rparr>;
                  s2 = (case cur_crop d of
                          None \<Rightarrow> s1
                        | Some c \<Rightarrow> if c \<noteq> [] then setCrop c s1 else s1)
              in s2\<lparr>loading := False, dev_load := False\<rparr>))
      else s)"
| "live_step s (CropChange c) = (if loading s then s else handleCropChange c s)"
| "live_step s (WriteDone failed) =
     (case writes s of
        [] \<Rightarrow> s
      | w # ws \<Rightarrow>
          s\<lparr>writes := ws,
            console := (if failed then console s @ [''Error updating cur_crop:''] else console s)\<rparr>)"
| "live_step s (SnapDone k res) =
     (if k < length (snap_loads s) then
        (let l = snap_loads s ! k;
             s1 = s\<lparr>snap_loads := drop_nth k (snap_loads s)\<rparr>
         in case res of
              Err \<Rightarrow> s1\<lparr>console := console s1 @ [''Error loading rt telem:'']\<rparr>
            | Data d \<Rightarrow> if cancelled l then s1 else s1\<lparr>telem := d\<rparr>)
      else s)"
| "live_step s (Push row) = (if crop row = channel s then s\<lparr>telem := Some row\<rparr> else s)"
| "live_step s (ThrDone k res) =
     (if k < length (thr_loads s) then
        (let l = thr_loads s ! k;
             s1 = s\<lparr>thr_loads := drop_nth k (thr_loads s)\<rparr>
         in case res of
              Err \<Rightarrow> s1\<lparr>console := console s1 @ [''Error loading crop_thr:'']\<rparr>
            | Data d \<Rightarrow> if cancelled l then s1 else s1\<lparr>thrMap := thr_map_of d\<rparr>)
      else s)"
| "live_step s (AltDone res) =
     (if alt_load s then
        (case res of
           Err \<Rightarrow> s\<lparr>console := console s @ [''Error fetching alternative crop data:''], alt_load := False\<rparr>
         | Data d \<Rightarrow> s\<lparr>altCropRecommendations := d, alt_load := False\<rparr>)
      else s)"
| "live_step s (ChartDone k res) =
     (if k < length (chart_loads s) then
        (let s1 = s\<lparr>chart_loads := drop_nth k (chart_loads s)\<rparr>
         in case res of
              Err \<Rightarrow> s1\<lparr>console := console s1 @ [''Error fetching chart data:'']\<rparr>
            | Data d \<Rightarrow> s1\<lparr>chartData := map chart_pt d\<rparr>)
      else s)"
| "live_step s Effects = run_effects s"

definition live_run :: "Live \<Rightarrow> live_event list \<Rightarrow> Live" where
  "live_run s es = foldl live_step s es"

inductive live_reach :: "Live \<Rightarrow> bool" where
  reach_init: "live_reach live_init"
| reach_step: "live_reach s \<Longrightarrow> live_reach (live_step s e)"

text \<open>\<open>buildCropReco\<close> and \<open>buildAltReco\<close>, closures over the component state.\<close>

definition buildCropReco :: "(jsnum \<Rightarrow> string) \<Rightarrow> Live \<Rightarrow> string" where
  "buildCropReco ts s = cropReco ts (telem s) (thrMap s)"

definition buildAltReco :: "Live \<Rightarrow> string" where
  "buildAltReco s = altReco (telem s) (thrMap s) (altCropRecommendations s)"

text \<open>
  What the cleanup of effect 3 maintains: a snapshot load whose flag is not set was
  issued by the latest run of the effect, for the crop the open channel listens to.
\<close>

definition live_inv :: "Live \<Rightarrow> bool" where
  "live_inv s = list_all (\<lambda>l. cancelled l \<or> origin l = channel s) (snap_loads s)"

text \<open>
  The store answers the query \<open>.eq('crop', crop)\<close> of a snapshot load with a row of
  that crop, if with any.
\<close>

fun honest :: "Live \<Rightarrow> live_event \<Rightarrow> bool" where
  "honest s (SnapDone k (Data (Some r))) =
     (if k < length (snap_loads s) then crop r = origin (snap_loads s ! k) else True)"
| "honest s e = True"

text \<open>
  What the two advisory functions can tell apart: of a reading, the seven channels
  (not the device, the time or the crop); of a catalog, for each of the seven keys,
  whether there is a rule and its bounds, unit and description.
\<close>

definition same_channels :: "'a Sens_scheme \<Rightarrow> 'b Sens_scheme \<Rightarrow> bool" where
  "same_channels a b = list_all (\<lambda>p. row_get a (key p) = row_get b (key p)) PARAMS"

fun same_rule :: "ThrRow option \<Rightarrow> ThrRow option \<Rightarrow> bool" where
  "same_rule None None = True"
| "same_rule (Some a) (Some b) =
     (val_min a = val_min b \<and> val_max a = val_max b \<and> thr_unit a = thr_unit b \<and> descr a = descr b)"
| "same_rule a b = False"

definition same_rules :: "(string \<rightharpoonup> ThrRow) \<Rightarrow> (string \<rightharpoonup> ThrRow) \<Rightarrow> bool" where
  "same_rules m1 m2 = list_all (\<lambda>p. same_rule (m1 (key p)) (m2 (key p))) PARAMS"

text \<open>A line that begins with the first byte of the bullet.\<close>

definition starts_bullet :: "string \<Rightarrow> bool" where
  "starts_bullet l = (l \<noteq> [] \<and> hd l = CHR 0xE2)"

section \<open>Example data\<close>

definition thr_moist :: ThrRow where
  "thr_moist = \<lparr>thr_crop = ''pechay'', param = ''moist_pct'', val_min = Num 40, val_max = Num 70,
                 thr_unit = ''%'', descr = Some ''Irrigate.''\<rparr>"

definition telem_dry :: TelemRow where
  "telem_dry = \<lparr>ph = Some (Num 6), moist_pct = Some (Num 35), temp_c = None, ec_ms = None,
                 n_mgkg = None, p_mgkg = None, k_mgkg = None, crop = ''pechay'',
                 dev_id = ''d1'', upd_at = ''2025-01-01T00:00:00Z''\<rparr>"

definition telem_edge :: TelemRow where
  "telem_edge = telem_dry\<lparr>moist_pct := Some (Num 40)\<rparr>"

definition alts_demo :: "AltRec list" where
  "alts_demo = [\<lparr>soil_param = ''Soil Moisture'', reading_range = ''<40% (dry)'',
                  recommended_crop = ''Okra''\<rparr>]"

definition p_moist :: ParamCfg where
  "p_moist = \<lparr>key = ''moist_pct'', label = ''Moisture'', unit = Some ''%''\<rparr>"

text \<open>
  Stand-ins for the addition and the division of doubles in the examples. They return
  the exact sum and quotient of finite operands, as the double operations do whenever
  that result is itself a double, which is the case for every operation the examples
  perform (0 + 10, 10 + 30, 40 / 2).
\<close>

fun add_exact :: "jsnum \<Rightarrow> jsnum \<Rightarrow> jsnum" where
  "add_exact (Num x) (Num y) = Num (x + y)"
| "add_exact a b = NaN"

fun div_exact :: "jsnum \<Rightarrow> jsnum \<Rightarrow> jsnum" where
  "div_exact (Num x) (Num y) = (if y = 0 then NaN else Num (x / y))"
| "div_exact a b = NaN"

definition hist_none :: HistRow where
  "hist_none = \<lparr>ph = None, moist_pct = None, temp_c = None, ec_ms = None,
                 n_mgkg = None, p_mgkg = None, k_mgkg = None, crop = ''pechay'',
                 bkt_30m = ''2025-01-01T00:30:00Z''\<rparr>"

definition hist_moist :: "jsnum \<Rightarrow> HistRow" where
  "hist_moist n = hist_none\<lparr>moist_pct := Some n\<rparr>"

definition sp_moist :: SumParam where
  "sp_moist = \<lparr>s_key = ''moist_pct'', s_label = ''Moisture'', s_unit = ''%''\<rparr>"

definition telem_new :: TelemRow where
  "telem_new = telem_dry\<lparr>moist_pct := Some (Num 55), upd_at := ''2025-01-01T00:05:00Z''\<rparr>"

definition hist_okra :: HistRow where
  "hist_okra = hist_none\<lparr>moist_pct := Some (Num 60), crop := ''okra''\<rparr>"

definition state_a :: Live where
  "state_a = live_init\<lparr>telem := Some telem_dry, thrMap := [''moist_pct'' \<mapsto> thr_moist],
                         altCropRecommendations := alts_demo\<rparr>"

definition state_b :: Live where
  "state_b = live_init\<lparr>sel := ''okra'', loading := False, console := [''Error loading device:''],
                         telem := Some (telem_dry\<lparr>crop := ''okra'', dev_id := ''d2''\<rparr>),
                         thrMap := [''moist_pct'' \<mapsto> thr_moist\<lparr>thr_crop := ''okra''\<rparr>,
                                    ''rainfall'' \<mapsto> thr_moist],
                         altCropRecommendations := alts_demo\<rparr>"

definition trace_stale :: "live_event list" where
  "trace_stale = [AltDone (Data alts_demo), DevLoaded (Data None), ThrDone 0 (Data [thr_moist]),
                  SnapDone 0 (Data (Some telem_dry)), CropChange ''okra'']"

definition dev_okra :: Dev where
  "dev_okra = \<lparr>id_dev = ''d1'', name_dev = ''probe'', ing_tok = ''tok'', cur_crop = Some ''okra''\<rparr>"

definition trace_dev_stale :: "live_event list" where
  "trace_dev_stale = [SnapDone 0 (Data (Some telem_dry)), DevLoaded (Data (Some dev_okra)),
                      Push telem_new]"

definition trace_late_chart :: "live_event list" where
  "trace_late_chart = [DevLoaded (Data None), CropChange ''okra'', Effects,
                       ChartDone 1 (Data [hist_okra]), ChartDone 0 (Data [hist_none])]"

definition trace_late_snap :: "live_event list" where
  "trace_late_snap = [DevLoaded (Data None), CropChange ''okra'', Effects,
                      SnapDone 0 (Data (Some telem_dry))]"

definition trace_late_hist :: "an_event list" where
  "trace_late_hist = [ASetCrop ''okra'', HistDone 1 (Data [hist_okra]), HistDone 0 (Data [hist_none])]"

section \<open>Properties of the advisory strings\<close>

lemma num_lt_irrefl: "\<not> num_lt a a"
  by (cases a) simp_all

lemma num_lt_trans: "num_lt a b \<Longrightarrow> num_lt b c \<Longrightarrow> num_lt a c"
  by (cases a; cases b; cases c) simp_all

lemma low_high_differ: "issue_line ts p ''LOW'' v thr \<noteq> issue_line ts p ''HIGH'' v thr"
  by (simp add: issue_line_def Let_def)

text \<open>
  C1. For a reading value \<open>v\<close> (any number but \<open>NaN\<close>, which is skipped) and a rule
  with \<open>val_min \<le> val_max\<close>, the callback of \<open>buildCropReco\<close> pushes the LOW line
  exactly when \<open>v < val_min\<close>, the HIGH line exactly when \<open>v > val_max\<close>, and nothing
  exactly when \<open>val_min \<le> v \<le> val_max\<close>; the two lines differ, so the three outcomes
  exclude each other, and a value equal to either bound produces no line.
\<close>

theorem classification_inclusive:
  assumes le: "num_le (val_min thr) (val_max thr)"
    and rd: "row_get r (key p) = Some v"
    and nn: "\<not> isNaN v"
    and th: "thrs (key p) = Some thr"
  shows "(crop_issue ts r thrs p = Some (issue_line ts p ''LOW'' v thr))
           = num_lt v (val_min thr)
       \<and> (crop_issue ts r thrs p = Some (issue_line ts p ''HIGH'' v thr))
           = num_gt v (val_max thr)
       \<and> (crop_issue ts r thrs p = None)
           = (num_le (val_min thr) v \<and> num_le v (val_max thr))
       \<and> issue_line ts p ''LOW'' v thr \<noteq> issue_line ts p ''HIGH'' v thr
       \<and> (v = val_min thr \<or> v = val_max thr \<longrightarrow> crop_issue ts r thrs p = None)"
proof -
  have d: "issue_line ts p ''LOW'' v thr \<noteq> issue_line ts p ''HIGH'' v thr"
    by (rule low_high_differ)
  have ex: "\<not> (num_lt v (val_min thr) \<and> num_lt (val_max thr) v)"
    using le num_lt_trans[of "val_max thr" v "val_min thr"] by (auto simp: num_le_def)
  have c: "crop_issue ts r thrs p =
             (if num_lt v (val_min thr) then Some (issue_line ts p ''LOW'' v thr)
              else if num_lt (val_max thr) v then Some (issue_line ts p ''HIGH'' v thr)
              else None)"
    using nn by (simp add: crop_issue_def rd th num_gt_def)
  have m: "\<not> isNaN (val_min thr)" and x: "\<not> isNaN (val_max thr)"
    using le by (simp_all add: num_le_def)
  show ?thesis
    using ex d d[symmetric] nn m x le
    by (auto simp: c num_gt_def num_le_def num_lt_irrefl)
qed

theorem classification_inclusive_witness:
  "num_le (val_min thr_moist) (val_max thr_moist)
   \<and> row_get telem_edge (key p_moist) = Some (Num 40)
   \<and> [''moist_pct'' \<mapsto> thr_moist] (key p_moist) = Some thr_moist
   \<and> Num 40 = val_min thr_moist
   \<and> crop_issue (\<lambda>n. []) telem_edge [''moist_pct'' \<mapsto> thr_moist] p_moist = None"
proof -
  have a: "num_le (val_min thr_moist) (val_max thr_moist)"
    by (simp add: thr_moist_def num_le_def isNaN_def)
  have b: "row_get telem_edge (key p_moist) = Some (Num 40)"
    by (simp add: row_get_def telem_edge_def p_moist_def)
  have c: "[''moist_pct'' \<mapsto> thr_moist] (key p_moist) = Some thr_moist"
    by (simp add: p_moist_def)
  have e: "Num 40 = val_min thr_moist"
    by (simp add: thr_moist_def)
  have n: "\<not> isNaN (Num 40)"
    by (simp add: isNaN_def)
  from classification_inclusive
         [where thr = thr_moist and r = telem_edge and p = p_moist and v = "Num 40"
            and thrs = "[''moist_pct'' \<mapsto> thr_moist]" and ts = "\<lambda>n. []"] a b n c e
  show ?thesis by blast
qed

lemma alt_step_presence:
  "(thrs1 (key p) = None) = (thrs2 (key p) = None)
   \<Longrightarrow> alt_step r thrs1 alts rcs p = alt_step r thrs2 alts rcs p"
  by (cases "thrs1 (key p)"; cases "thrs2 (key p)")
     (simp_all add: alt_step_def cong: if_cong option.case_cong)

lemma alt_step_other_key:
  assumes "key p \<noteq> ''moist_pct''" "key p \<noteq> ''ec_ms''" "key p \<noteq> ''temp_c''"
  shows "alt_step r thrs alts rcs p = rcs"
  using assms by (simp add: alt_step_def split: option.splits)

text \<open>
  C6, as the code has it. The three alternative-crop checks do not read the bounds, the
  unit or the description of any rule, but the callback returns early for a parameter
  with no rule: two catalogs that have a rule for the same ones of \<open>moist_pct\<close>,
  \<open>ec_ms\<close> and \<open>temp_c\<close> give the same alternative-crop string.
\<close>

theorem alt_reco_reads_rule_presence_only:
  assumes m: "(thrs1 ''moist_pct'' = None) = (thrs2 ''moist_pct'' = None)"
    and e: "(thrs1 ''ec_ms'' = None) = (thrs2 ''ec_ms'' = None)"
    and c: "(thrs1 ''temp_c'' = None) = (thrs2 ''temp_c'' = None)"
  shows "altReco tel thrs1 alts = altReco tel thrs2 alts"
proof -
  have step: "alt_step r thrs1 alts rcs p = alt_step r thrs2 alts rcs p"
    for r :: TelemRow and rcs p
  proof (cases "key p = ''moist_pct'' \<or> key p = ''ec_ms'' \<or> key p = ''temp_c''")
    case True
    then have "(thrs1 (key p) = None) = (thrs2 (key p) = None)"
      using m e c by auto
    then show ?thesis by (rule alt_step_presence)
  next
    case False
    then show ?thesis by (simp add: alt_step_other_key)
  qed
  then have "alt_step r thrs1 alts = alt_step r thrs2 alts" for r :: TelemRow
    by (intro ext)
  then show ?thesis by (cases tel) (simp_all add: altReco_def alt_crops_def)
qed

theorem alt_reco_reads_rule_presence_only_witness:
  "altReco (Some telem_dry) [''moist_pct'' \<mapsto> thr_moist] alts_demo
     = altReco (Some telem_dry) [''moist_pct'' \<mapsto> thr_moist\<lparr>val_min := Num 10, val_max := Num 20\<rparr>] alts_demo"
  by (rule alt_reco_reads_rule_presence_only) simp_all

lemma alt_reco_no_rule: "altReco (Some telem_dry) Map.empty alts_demo = well_alt"
  by (simp add: altReco_def alt_crops_def PARAMS_def alt_step_def row_get_def telem_dry_def)

lemma alt_reco_with_rule:
  "altReco (Some telem_dry) [''moist_pct'' \<mapsto> thr_moist] alts_demo
     = bullet @ '' Based on your current soil conditions, consider switching to one of the following alternative crops: Okra.''"
  by (simp add: altReco_def alt_crops_def PARAMS_def alt_step_def row_get_def telem_dry_def
      isNaN_def alts_demo_def find_alt_def add_alt_def num_gt_def)

text \<open>
  C6, as the claim states it, fails: with moisture 35 and the dry-soil rule in the
  alt-crop table, the empty catalog gives the "doing well" sentence and a catalog with
  a moisture rule gives the suggestion of Okra.
\<close>

theorem alt_reco_catalog_counterexample:
  "altReco (Some telem_dry) Map.empty alts_demo
     \<noteq> altReco (Some telem_dry) [''moist_pct'' \<mapsto> thr_moist] alts_demo"
  by (simp add: alt_reco_no_rule alt_reco_with_rule well_alt_def)

lemma foldl_filter_skip:
  assumes "\<And>a x. x \<in> set xs \<Longrightarrow> \<not> P x \<Longrightarrow> f a x = a"
  shows "foldl f a (filter P xs) = foldl f a xs"
  using assms by (induction xs arbitrary: a) auto

lemma crop_issue_skip:
  "row_get r (key p) = None \<or> row_get r (key p) = Some NaN \<or> thrs (key p) = None
   \<Longrightarrow> crop_issue ts r thrs p = None"
  by (auto simp: crop_issue_def isNaN_def split: option.splits)

lemma alt_step_skip:
  "row_get r (key p) = None \<or> row_get r (key p) = Some NaN \<or> thrs (key p) = None
   \<Longrightarrow> alt_step r thrs alts rcs p = rcs"
  by (auto simp: alt_step_def isNaN_def split: option.splits)

text \<open>
  C7. If the reading has no value for the parameter \<open>k\<close> (\<open>null\<close>, absent, or
  \<open>NaN\<close>), or the catalog has no rule for \<open>k\<close>, then the callback of
  \<open>buildCropReco\<close> pushes no line for a parameter with that key, the callback of
  \<open>buildAltReco\<close> leaves the list of recommended crops as it is, and both loops give
  what they give over the parameters other than \<open>k\<close>.
\<close>

theorem skipped_parameter_contributes_nothing:
  assumes sk: "row_get r k = None \<or> row_get r k = Some NaN \<or> thrs k = None"
  shows "(\<forall>p. key p = k \<longrightarrow>
            crop_issue ts r thrs p = None \<and> alt_step r thrs alts rcs p = rcs)
       \<and> crop_issues ts r thrs ps = crop_issues ts r thrs (filter (\<lambda>q. key q \<noteq> k) ps)
       \<and> alt_crops r thrs alts ps = alt_crops r thrs alts (filter (\<lambda>q. key q \<noteq> k) ps)"
proof (intro conjI allI impI)
  fix p :: ParamCfg assume "key p = k"
  with sk show "crop_issue ts r thrs p = None" by (simp add: crop_issue_skip)
next
  fix p :: ParamCfg assume "key p = k"
  with sk show "alt_step r thrs alts rcs p = rcs" by (simp add: alt_step_skip)
next
  have "\<And>a x. \<not> key x \<noteq> k \<Longrightarrow> crop_step ts r thrs a x = a"
    using sk by (simp add: crop_step_def crop_issue_skip)
  then show "crop_issues ts r thrs ps = crop_issues ts r thrs (filter (\<lambda>q. key q \<noteq> k) ps)"
    unfolding crop_issues_def by (intro foldl_filter_skip[symmetric]) simp
next
  have "\<And>a x. \<not> key x \<noteq> k \<Longrightarrow> alt_step r thrs alts a x = a"
    using sk by (simp add: alt_step_skip)
  then show "alt_crops r thrs alts ps = alt_crops r thrs alts (filter (\<lambda>q. key q \<noteq> k) ps)"
    unfolding alt_crops_def by (intro foldl_filter_skip[symmetric]) simp
qed

theorem skipped_parameter_contributes_nothing_witness:
  "Map.empty ''moist_pct'' = (None :: ThrRow option)
   \<and> crop_issue (\<lambda>n. []) telem_dry Map.empty p_moist = None
   \<and> alt_step telem_dry Map.empty alts_demo [] p_moist = []
   \<and> crop_issues (\<lambda>n. []) telem_dry Map.empty PARAMS
       = crop_issues (\<lambda>n. []) telem_dry Map.empty (filter (\<lambda>q. key q \<noteq> ''moist_pct'') PARAMS)
   \<and> alt_crops telem_dry Map.empty alts_demo PARAMS
       = alt_crops telem_dry Map.empty alts_demo (filter (\<lambda>q. key q \<noteq> ''moist_pct'') PARAMS)"
proof -
  have h: "row_get telem_dry ''moist_pct'' = None \<or> row_get telem_dry ''moist_pct'' = Some NaN
           \<or> Map.empty ''moist_pct'' = (None :: ThrRow option)"
    by simp
  have k: "key p_moist = ''moist_pct''"
    by (simp add: p_moist_def)
  from skipped_parameter_contributes_nothing
         [where r = telem_dry and k = "''moist_pct''" and thrs = "Map.empty :: string \<rightharpoonup> ThrRow"
            and ts = "\<lambda>n. []" and alts = alts_demo and rcs = "[]" and ps = PARAMS] h k
  show ?thesis by simp
qed

lemma same_channels_refl: "same_channels r r"
  by (simp add: same_channels_def list_all_iff)

lemma same_rules_refl: "same_rules m m"
proof -
  have "same_rule x x" for x
    by (cases x) simp_all
  then show ?thesis
    by (simp add: same_rules_def list_all_iff)
qed

lemma issue_line_cong:
  "val_min a = val_min b \<Longrightarrow> val_max a = val_max b \<Longrightarrow> thr_unit a = thr_unit b
   \<Longrightarrow> descr a = descr b \<Longrightarrow> issue_line ts p d v a = issue_line ts p d v b"
  by (simp add: issue_line_def unit_of_def)

lemma crop_issue_cong:
  assumes "row_get r1 (key p) = row_get r2 (key p)"
    and "same_rule (thrs1 (key p)) (thrs2 (key p))"
  shows "crop_issue ts r1 thrs1 p = crop_issue ts r2 thrs2 p"
proof (cases "thrs1 (key p)")
  case None
  then have "thrs2 (key p) = None"
    using assms(2) by (cases "thrs2 (key p)") simp_all
  then show ?thesis
    using None assms(1) by (simp add: crop_issue_def cong: if_cong option.case_cong)
next
  case (Some a)
  then obtain b where b: "thrs2 (key p) = Some b"
    using assms(2) by (cases "thrs2 (key p)") simp_all
  have e: "val_min a = val_min b" "val_max a = val_max b"
    and f: "thr_unit a = thr_unit b" "descr a = descr b"
    using assms(2) Some b by simp_all
  have l: "issue_line ts p d v a = issue_line ts p d v b" for d v
    by (rule issue_line_cong) (rule e f)+
  show ?thesis
    using assms(1) by (simp add: crop_issue_def Some b e l cong: if_cong option.case_cong)
qed

lemma alt_step_cong:
  assumes "row_get r1 (key p) = row_get r2 (key p)"
    and "(thrs1 (key p) = None) = (thrs2 (key p) = None)"
  shows "alt_step r1 thrs1 alts rcs p = alt_step r2 thrs2 alts rcs p"
  using assms
  by (cases "thrs1 (key p)"; cases "thrs2 (key p)")
     (simp_all add: alt_step_def cong: if_cong option.case_cong)

lemma same_rule_presence: "same_rule a b \<Longrightarrow> (a = None) = (b = None)"
  by (cases a; cases b) simp_all

lemma crop_issues_cong:
  assumes "same_channels r1 r2" and "same_rules thrs1 thrs2"
  shows "crop_issues ts r1 thrs1 PARAMS = crop_issues ts r2 thrs2 PARAMS"
  unfolding crop_issues_def
proof (rule foldl_cong[OF refl refl])
  fix a x assume "x \<in> set PARAMS"
  then have "row_get r1 (key x) = row_get r2 (key x)"
    and "same_rule (thrs1 (key x)) (thrs2 (key x))"
    using assms by (simp_all add: same_channels_def same_rules_def list_all_iff)
  then have "crop_issue ts r1 thrs1 x = crop_issue ts r2 thrs2 x"
    by (rule crop_issue_cong)
  then show "crop_step ts r1 thrs1 a x = crop_step ts r2 thrs2 a x"
    by (simp add: crop_step_def)
qed

lemma alt_crops_cong:
  assumes "same_channels r1 r2" and "same_rules thrs1 thrs2"
  shows "alt_crops r1 thrs1 alts PARAMS = alt_crops r2 thrs2 alts PARAMS"
  unfolding alt_crops_def
proof (rule foldl_cong[OF refl refl])
  fix a x assume "x \<in> set PARAMS"
  then have "row_get r1 (key x) = row_get r2 (key x)"
    and "same_rule (thrs1 (key x)) (thrs2 (key x))"
    using assms by (simp_all add: same_channels_def same_rules_def list_all_iff)
  then have "row_get r1 (key x) = row_get r2 (key x)"
    and "(thrs1 (key x) = None) = (thrs2 (key x) = None)"
    by (simp_all only: same_rule_presence[of "thrs1 (key x)" "thrs2 (key x)"])
  then show "alt_step r1 thrs1 alts a x = alt_step r2 thrs2 alts a x"
    by (rule alt_step_cong)
qed

lemma crop_issues_bullet:
  "list_all starts_bullet acc \<Longrightarrow> list_all starts_bullet (foldl (crop_step ts r thrs) acc ps)"
proof (induction ps arbitrary: acc)
  case Nil
  then show ?case by simp
next
  case (Cons p ps)
  have l: "starts_bullet (issue_line ts p d v thr)" for d v thr
    by (simp add: issue_line_def bullet_def starts_bullet_def Let_def)
  have "crop_issue ts r thrs p = Some x \<Longrightarrow> starts_bullet x" for x
    using l by (auto simp: crop_issue_def split: option.splits if_splits)
  then have "list_all starts_bullet (crop_step ts r thrs acc p)"
    using Cons.prems by (cases "crop_issue ts r thrs p") (simp_all add: crop_step_def)
  then show ?case using Cons.IH by simp
qed

lemma join_bullet:
  "ls \<noteq> [] \<Longrightarrow> list_all starts_bullet ls \<Longrightarrow> starts_bullet (join sep ls)"
proof (cases ls)
  case Nil
  assume "ls \<noteq> []"
  then show ?thesis using Nil by simp
next
  case (Cons x xs)
  assume "list_all starts_bullet ls"
  then show ?thesis
    using Cons by (cases xs) (simp_all add: starts_bullet_def)
qed

lemma cropReco_waiting: "(cropReco ts tel thrs = waiting_crop) = (tel = None)"
proof (cases tel)
  case None
  then show ?thesis by (simp add: cropReco_def)
next
  case (Some r)
  have w: "\<not> starts_bullet waiting_crop"
    by (simp add: starts_bullet_def waiting_crop_def)
  have b: "starts_bullet well_crop"
    by (simp add: starts_bullet_def well_crop_def bullet_def)
  have i: "list_all starts_bullet (crop_issues ts r thrs PARAMS)"
    unfolding crop_issues_def by (rule crop_issues_bullet) simp
  have "starts_bullet (cropReco ts tel thrs)"
    using b join_bullet[OF _ i] by (simp add: cropReco_def Some Let_def)
  then show ?thesis using w Some by auto
qed

lemma altReco_waiting: "(altReco tel thrs alts = waiting_alt) = (tel = None)"
proof (cases tel)
  case None
  then show ?thesis by (simp add: altReco_def)
next
  case (Some r)
  have w: "\<not> starts_bullet waiting_alt"
    by (simp add: starts_bullet_def waiting_alt_def)
  have "starts_bullet (altReco tel thrs alts)"
    by (simp add: altReco_def Some Let_def starts_bullet_def well_alt_def bullet_def)
  then show ?thesis using w Some by auto
qed

text \<open>
  C9. The two advisory strings are a function of the reading, the threshold catalog and
  the alt-crop table, and of less: two component states give the same two strings as
  soon as their readings are both absent or agree on the seven channels, their
  catalogs agree, for each of the seven keys, on whether there is a rule and on its
  bounds, unit and description, and their alt-crop tables are equal; identical inputs
  are the special case of \<open>same_channels_refl\<close> and \<open>same_rules_refl\<close>. Everything else
  (the selected crop, the device, the flags, the chart, what is in flight, the console;
  the device, time and crop of the reading; rules under other keys) is not read. The
  waiting sentence is returned exactly when there is no reading.
\<close>

theorem advisory_reads_three_inputs_only:
  assumes r: "rel_option same_channels (telem s1) (telem s2)"
    and c: "same_rules (thrMap s1) (thrMap s2)"
    and a: "altCropRecommendations s1 = altCropRecommendations s2"
  shows "buildCropReco ts s1 = buildCropReco ts s2
       \<and> buildAltReco s1 = buildAltReco s2
       \<and> (buildCropReco ts s1 = waiting_crop) = (telem s1 = None)
       \<and> (buildAltReco s1 = waiting_alt) = (telem s1 = None)"
proof (cases "telem s1")
  case None
  then have "telem s2 = None"
    using r by (cases "telem s2") simp_all
  then show ?thesis
    using None by (simp add: buildCropReco_def buildAltReco_def cropReco_def altReco_def)
next
  case (Some r1)
  then obtain r2 where r2: "telem s2 = Some r2" and ch: "same_channels r1 r2"
    using r by (cases "telem s2") simp_all
  have "cropReco ts (Some r1) (thrMap s1) = cropReco ts (Some r2) (thrMap s2)"
    by (simp add: cropReco_def crop_issues_cong[OF ch c])
  moreover have "altReco (Some r1) (thrMap s1) (altCropRecommendations s1)
                   = altReco (Some r2) (thrMap s2) (altCropRecommendations s2)"
    by (simp add: altReco_def a alt_crops_cong[OF ch c])
  ultimately show ?thesis
    by (simp add: buildCropReco_def buildAltReco_def Some r2 cropReco_waiting altReco_waiting)
qed

lemma crop_reco_state_a:
  "buildCropReco (\<lambda>n. []) state_a = issue_line (\<lambda>n. []) p_moist ''LOW'' (Num 35) thr_moist"
  by (simp add: buildCropReco_def state_a_def cropReco_def crop_issues_def PARAMS_def
      crop_step_def crop_issue_def row_get_def telem_dry_def isNaN_def thr_moist_def num_gt_def
      p_moist_def issue_line_def unit_of_def)

theorem advisory_reads_three_inputs_only_witness:
  "rel_option same_channels (telem state_a) (telem state_b)
   \<and> same_rules (thrMap state_a) (thrMap state_b)
   \<and> telem state_a \<noteq> telem state_b
   \<and> sel state_a \<noteq> sel state_b
   \<and> buildCropReco (\<lambda>n. []) state_b = issue_line (\<lambda>n. []) p_moist ''LOW'' (Num 35) thr_moist
   \<and> buildAltReco state_b
       = bullet @ '' Based on your current soil conditions, consider switching to one of the following alternative crops: Okra.''"
proof -
  have r: "rel_option same_channels (telem state_a) (telem state_b)"
    by (simp add: state_a_def state_b_def same_channels_def PARAMS_def row_get_def)
  have c: "same_rules (thrMap state_a) (thrMap state_b)"
    by (simp add: state_a_def state_b_def same_rules_def PARAMS_def)
  have a: "altCropRecommendations state_a = altCropRecommendations state_b"
    by (simp add: state_a_def state_b_def)
  have d: "telem state_a \<noteq> telem state_b \<and> sel state_a \<noteq> sel state_b"
    by (simp add: state_a_def state_b_def live_init_def telem_dry_def)
  have l: "buildAltReco state_a
             = bullet @ '' Based on your current soil conditions, consider switching to one of the following alternative crops: Okra.''"
    by (simp add: buildAltReco_def state_a_def alt_reco_with_rule)
  from advisory_reads_three_inputs_only [OF r c a, of "\<lambda>n. []"] r c d
  show ?thesis
    by (simp only: crop_reco_state_a l) simp
qed

section \<open>Properties of the summary statistics\<close>

lemma num_le_refl: "\<not> isNaN a \<Longrightarrow> num_le a a"
  by (simp add: num_le_def num_lt_irrefl)

lemma num_le_trans: "num_le a b \<Longrightarrow> num_le b c \<Longrightarrow> num_le a c"
  by (cases a; cases b; cases c) (simp_all add: num_le_def isNaN_def)

lemma num_min_le:
  "\<not> isNaN a \<Longrightarrow> \<not> isNaN b \<Longrightarrow> num_le (num_min a b) a \<and> num_le (num_min a b) b"
  by (cases a; cases b) (simp_all add: num_min_def num_le_def isNaN_def)

lemma num_max_ge:
  "\<not> isNaN a \<Longrightarrow> \<not> isNaN b \<Longrightarrow> num_le a (num_max a b) \<and> num_le b (num_max a b)"
  by (cases a; cases b) (simp_all add: num_max_def num_le_def isNaN_def)

lemma foldl_num_min:
  assumes "\<not> isNaN v" and "\<forall>x \<in> set vs. \<not> isNaN x"
  shows "foldl num_min v vs \<in> set (v # vs) \<and> (\<forall>x \<in> set (v # vs). num_le (foldl num_min v vs) x)"
  using assms
proof (induction vs arbitrary: v)
  case Nil
  then show ?case by (simp add: num_le_refl)
next
  case (Cons a vs)
  have n: "\<not> isNaN (num_min v a)"
    using Cons.prems by (simp add: num_min_def)
  have ih: "foldl num_min (num_min v a) vs \<in> set (num_min v a # vs)
            \<and> (\<forall>x \<in> set (num_min v a # vs). num_le (foldl num_min (num_min v a) vs) x)"
    using Cons.IH[OF n] Cons.prems by simp
  have m: "num_min v a = v \<or> num_min v a = a"
    by (simp add: num_min_def)
  have l: "num_le (num_min v a) v \<and> num_le (num_min v a) a"
    using Cons.prems by (simp add: num_min_le)
  have f: "num_le (foldl num_min (num_min v a) vs) (num_min v a)"
    using ih by simp
  show ?case
    using ih m l num_le_trans[OF f] by auto
qed

lemma foldl_num_max:
  assumes "\<not> isNaN v" and "\<forall>x \<in> set vs. \<not> isNaN x"
  shows "foldl num_max v vs \<in> set (v # vs) \<and> (\<forall>x \<in> set (v # vs). num_le x (foldl num_max v vs))"
  using assms
proof (induction vs arbitrary: v)
  case Nil
  then show ?case by (simp add: num_le_refl)
next
  case (Cons a vs)
  have n: "\<not> isNaN (num_max v a)"
    using Cons.prems by (simp add: num_max_def)
  have ih: "foldl num_max (num_max v a) vs \<in> set (num_max v a # vs)
            \<and> (\<forall>x \<in> set (num_max v a # vs). num_le x (foldl num_max (num_max v a) vs))"
    using Cons.IH[OF n] Cons.prems by simp
  have m: "num_max v a = v \<or> num_max v a = a"
    by (simp add: num_max_def)
  have l: "num_le v (num_max v a) \<and> num_le a (num_max v a)"
    using Cons.prems by (simp add: num_max_ge)
  have f: "num_le (num_max v a) (foldl num_max (num_max v a) vs)"
    using ih by simp
  show ?case
    using ih m l num_le_trans[OF _ f] by auto
qed

lemma kept_filter:
  "map Some (List.map_filter kept vs) = filter (\<lambda>v. v \<noteq> None \<and> v \<noteq> Some NaN) vs"
proof (induction vs)
  case Nil
  then show ?case by (simp add: List.map_filter_simps)
next
  case (Cons a vs)
  then show ?case
    by (cases a) (simp_all add: List.map_filter_simps isNaN_def)
qed

lemma vals_of_not_NaN: "x \<in> set (vals_of rs k) \<Longrightarrow> \<not> isNaN x"
proof -
  assume "x \<in> set (vals_of rs k)"
  then have "Some x \<in> set (map Some (vals_of rs k))" by simp
  then have "Some x \<in> set (filter (\<lambda>v. v \<noteq> None \<and> v \<noteq> Some NaN) (map (\<lambda>r. row_get r k) rs))"
    by (simp only: vals_of_def kept_filter)
  then show ?thesis by (auto simp: isNaN_def)
qed


text \<open>
  C2, as the code has it. For a non-empty window and a parameter \<open>p\<close>, the values the
  statistics range over are exactly the non-null, non-\<open>NaN\<close> values of \<open>p\<close>, in
  bucket order. With none of them, \<open>min\<close>, \<open>max\<close>, \<open>avg\<close> and \<open>last\<close> are all
  absent. With at least one, \<open>min\<close> is one of them and below all of them, \<open>max\<close> is
  one of them and above all of them, \<open>avg\<close> is the double quotient of their double sum,
  accumulated from 0 in bucket order, by their count, and \<open>last\<close> is the value of
  \<open>p\<close> in the last bucket, null or \<open>NaN\<close> included. When the values are finite and
  neither the sum nor the division rounds, \<open>avg\<close> is their arithmetic mean. The
  witness is the window of the claim: 10, null, 30 gives 10, 30, 20 and 30.
\<close>

theorem stats_summary:
  assumes ne: "rs \<noteq> []"
  shows "stats fadd fdiv rs = map (stat_of fadd fdiv rs) SUM_PARAMS
       \<and> map Some (vals_of rs (s_key p))
           = filter (\<lambda>v. v \<noteq> None \<and> v \<noteq> Some NaN) (map (\<lambda>r. row_get r (s_key p)) rs)
       \<and> (if vals_of rs (s_key p) = []
           then s_min (stat_of fadd fdiv rs p) = None \<and> s_max (stat_of fadd fdiv rs p) = None
              \<and> s_avg (stat_of fadd fdiv rs p) = None \<and> s_last (stat_of fadd fdiv rs p) = None
           else (\<exists>m \<in> set (vals_of rs (s_key p)).
                    s_min (stat_of fadd fdiv rs p) = Some m
                    \<and> (\<forall>v \<in> set (vals_of rs (s_key p)). num_le m v))
              \<and> (\<exists>m \<in> set (vals_of rs (s_key p)).
                    s_max (stat_of fadd fdiv rs p) = Some m
                    \<and> (\<forall>v \<in> set (vals_of rs (s_key p)). num_le v m))
              \<and> s_avg (stat_of fadd fdiv rs p)
                  = Some (fdiv (foldl fadd (Num 0) (vals_of rs (s_key p)))
                               (Num (real (length (vals_of rs (s_key p))))))
              \<and> s_last (stat_of fadd fdiv rs p) = row_get (last rs) (s_key p))
       \<and> (\<forall>xs. vals_of rs (s_key p) = map Num xs \<and> xs \<noteq> []
               \<and> foldl fadd (Num 0) (map Num xs) = Num (sum_list xs)
               \<and> fdiv (Num (sum_list xs)) (Num (real (length xs)))
                   = Num (sum_list xs / real (length xs))
             \<longrightarrow> s_avg (stat_of fadd fdiv rs p) = Some (Num (sum_list xs / real (length xs))))"
proof (intro conjI)
  show "stats fadd fdiv rs = map (stat_of fadd fdiv rs) SUM_PARAMS"
    using ne by (simp add: stats_def)
next
  show "map Some (vals_of rs (s_key p))
          = filter (\<lambda>v. v \<noteq> None \<and> v \<noteq> Some NaN) (map (\<lambda>r. row_get r (s_key p)) rs)"
    unfolding vals_of_def by (rule kept_filter)
next
  show "if vals_of rs (s_key p) = []
        then s_min (stat_of fadd fdiv rs p) = None \<and> s_max (stat_of fadd fdiv rs p) = None
           \<and> s_avg (stat_of fadd fdiv rs p) = None \<and> s_last (stat_of fadd fdiv rs p) = None
        else (\<exists>m \<in> set (vals_of rs (s_key p)).
                 s_min (stat_of fadd fdiv rs p) = Some m
                 \<and> (\<forall>v \<in> set (vals_of rs (s_key p)). num_le m v))
           \<and> (\<exists>m \<in> set (vals_of rs (s_key p)).
                 s_max (stat_of fadd fdiv rs p) = Some m
                 \<and> (\<forall>v \<in> set (vals_of rs (s_key p)). num_le v m))
           \<and> s_avg (stat_of fadd fdiv rs p)
               = Some (fdiv (foldl fadd (Num 0) (vals_of rs (s_key p)))
                            (Num (real (length (vals_of rs (s_key p))))))
           \<and> s_last (stat_of fadd fdiv rs p) = row_get (last rs) (s_key p)"
  proof (cases "vals_of rs (s_key p)")
    case Nil
    then show ?thesis by (simp add: stat_of_def)
  next
    case (Cons v vs)
    have nn: "\<not> isNaN v" "\<forall>x \<in> set vs. \<not> isNaN x"
      using vals_of_not_NaN[of _ rs "s_key p"] Cons by simp_all
    have mn: "s_min (stat_of fadd fdiv rs p) = Some (foldl num_min v vs)"
      and mx: "s_max (stat_of fadd fdiv rs p) = Some (foldl num_max v vs)"
      and av: "s_avg (stat_of fadd fdiv rs p)
                 = Some (fdiv (foldl fadd (Num 0) (v # vs)) (Num (real (length (v # vs)))))"
      and la: "s_last (stat_of fadd fdiv rs p) = row_get (last rs) (s_key p)"
      by (simp_all add: stat_of_def Cons Let_def)
    show ?thesis
      using foldl_num_min[OF nn] foldl_num_max[OF nn]
      by (simp only: Cons mn mx av la) auto
  qed
next
  show "\<forall>xs. vals_of rs (s_key p) = map Num xs \<and> xs \<noteq> []
               \<and> foldl fadd (Num 0) (map Num xs) = Num (sum_list xs)
               \<and> fdiv (Num (sum_list xs)) (Num (real (length xs)))
                   = Num (sum_list xs / real (length xs))
             \<longrightarrow> s_avg (stat_of fadd fdiv rs p) = Some (Num (sum_list xs / real (length xs)))"
  proof (intro allI impI)
    fix xs
    assume a: "vals_of rs (s_key p) = map Num xs \<and> xs \<noteq> []
               \<and> foldl fadd (Num 0) (map Num xs) = Num (sum_list xs)
               \<and> fdiv (Num (sum_list xs)) (Num (real (length xs)))
                   = Num (sum_list xs / real (length xs))"
    then obtain y ys where xs: "xs = y # ys" by (cases xs) auto
    have "s_avg (stat_of fadd fdiv rs p)
            = Some (fdiv (foldl fadd (Num 0) (map Num xs)) (Num (real (length xs))))"
      using a by (simp add: stat_of_def xs Let_def)
    then show "s_avg (stat_of fadd fdiv rs p) = Some (Num (sum_list xs / real (length xs)))"
      using a by simp
  qed
qed

lemma vals_example:
  "vals_of [hist_moist (Num 10), hist_none, hist_moist (Num 30)] ''moist_pct'' = map Num [10, 30]"
  by (simp add: vals_of_def List.map_filter_simps row_get_def hist_moist_def hist_none_def isNaN_def)

theorem stats_summary_witness:
  "[hist_moist (Num 10), hist_none, hist_moist (Num 30)] \<noteq> []
   \<and> s_min (stat_of add_exact div_exact [hist_moist (Num 10), hist_none, hist_moist (Num 30)] sp_moist)
       = Some (Num 10)
   \<and> s_max (stat_of add_exact div_exact [hist_moist (Num 10), hist_none, hist_moist (Num 30)] sp_moist)
       = Some (Num 30)
   \<and> s_avg (stat_of add_exact div_exact [hist_moist (Num 10), hist_none, hist_moist (Num 30)] sp_moist)
       = Some (Num 20)
   \<and> s_last (stat_of add_exact div_exact [hist_moist (Num 10), hist_none, hist_moist (Num 30)] sp_moist)
       = Some (Num 30)"
proof -
  have ne: "[hist_moist (Num 10), hist_none, hist_moist (Num 30)] \<noteq> []"
    by simp
  have k: "s_key sp_moist = ''moist_pct''"
    by (simp add: sp_moist_def)
  have l: "row_get (last [hist_moist (Num 10), hist_none, hist_moist (Num 30)]) ''moist_pct''
             = Some (Num 30)"
    by (simp add: row_get_def hist_moist_def)
  have le: "num_le (Num 10) (Num 10) \<and> num_le (Num 10) (Num 30) \<and> num_le (Num 30) (Num 30)
            \<and> \<not> num_le (Num 30) (Num 10)"
    by (simp add: num_le_def isNaN_def)
  from stats_summary [OF ne, of add_exact div_exact sp_moist]
  show ?thesis
    unfolding k vals_example l using le by auto
qed

lemma vals_nan: "vals_of [hist_moist NaN] ''moist_pct'' = []"
  by (simp add: vals_of_def List.map_filter_simps row_get_def hist_moist_def hist_none_def isNaN_def)

text \<open>
  C2, as the claim states it, fails on \<open>last\<close>: in a window whose only bucket holds
  \<open>NaN\<close> for moisture, the last bucket's value is \<open>NaN\<close> and \<open>last\<close> is absent.
\<close>

theorem stats_last_counterexample:
  "stats add_exact div_exact [hist_moist NaN] \<noteq> []
   \<and> s_key (hd (stats add_exact div_exact [hist_moist NaN])) = ''moist_pct''
   \<and> row_get (last [hist_moist NaN]) ''moist_pct'' = Some NaN
   \<and> s_last (hd (stats add_exact div_exact [hist_moist NaN])) = None"
proof -
  have k: "s_key (hd SUM_PARAMS) = ''moist_pct''"
    by (simp add: SUM_PARAMS_def)
  have a: "stats add_exact div_exact [hist_moist NaN]
             = map (stat_of add_exact div_exact [hist_moist NaN]) SUM_PARAMS"
    by (simp add: stats_def)
  have n: "SUM_PARAMS \<noteq> []"
    by (simp add: SUM_PARAMS_def)
  have h: "hd (stats add_exact div_exact [hist_moist NaN])
             = stat_of add_exact div_exact [hist_moist NaN] (hd SUM_PARAMS)"
    using n by (simp add: a hd_map)
  have b: "s_key (stat_of add_exact div_exact [hist_moist NaN] (hd SUM_PARAMS)) = ''moist_pct''
           \<and> s_last (stat_of add_exact div_exact [hist_moist NaN] (hd SUM_PARAMS)) = None"
    by (simp add: stat_of_def k vals_nan)
  have c: "row_get (last [hist_moist NaN]) ''moist_pct'' = Some NaN"
    by (simp add: row_get_def hist_moist_def)
  have ne: "stats add_exact div_exact [hist_moist NaN] \<noteq> []"
    using n by (simp add: a)
  show ?thesis
    using ne b c by (simp add: h)
qed

text \<open>
  C10. An empty window gives the empty list of statistics, and only an empty window
  does; a non-empty window gives seven records, one per parameter of \<open>SUM_PARAMS\<close> in
  order, and when every channel of every bucket is null each record has its four
  statistics absent.
\<close>

theorem stats_empty_window:
  "stats fadd fdiv [] = []
   \<and> (stats fadd fdiv rs = []) = (rs = [])
   \<and> (rs \<noteq> [] \<longrightarrow> length (stats fadd fdiv rs) = 7
                   \<and> map s_key (stats fadd fdiv rs) = map s_key SUM_PARAMS)
   \<and> (rs \<noteq> [] \<and> (\<forall>r \<in> set rs. \<forall>k. row_get r k = None) \<longrightarrow>
        (\<forall>st \<in> set (stats fadd fdiv rs).
           s_min st = None \<and> s_max st = None \<and> s_avg st = None \<and> s_last st = None))"
proof -
  have key: "s_key (stat_of fadd fdiv rs p) = s_key p" for p
    by (simp add: stat_of_def Let_def split: list.splits)
  have none: "vals_of rs k = []" if "\<forall>r \<in> set rs. \<forall>k. row_get r k = None" for k
    using that by (induction rs) (simp_all add: vals_of_def List.map_filter_simps)
  have absent: "s_min (stat_of fadd fdiv rs p) = None \<and> s_max (stat_of fadd fdiv rs p) = None
                \<and> s_avg (stat_of fadd fdiv rs p) = None \<and> s_last (stat_of fadd fdiv rs p) = None"
    if "\<forall>r \<in> set rs. \<forall>k. row_get r k = None" for p
    using none[OF that, of "s_key p"] by (simp add: stat_of_def)
  show ?thesis
    using absent by (auto simp: stats_def SUM_PARAMS_def key)
qed

theorem stats_empty_window_witness:
  "[hist_none] \<noteq> [] \<and> stats add_exact div_exact [] = []
   \<and> length (stats add_exact div_exact [hist_none]) = 7
   \<and> map s_key (stats add_exact div_exact [hist_none])
       = [''moist_pct'', ''temp_c'', ''ec_ms'', ''ph'', ''n_mgkg'', ''p_mgkg'', ''k_mgkg'']"
  using stats_empty_window [of add_exact div_exact "[hist_none]"] by (simp add: SUM_PARAMS_def)

section \<open>Properties of the Live page state\<close>

lemma list_all_drop_nth: "list_all P xs \<Longrightarrow> list_all P (drop_nth k xs)"
  by (auto simp: drop_nth_def list_all_iff dest: in_set_takeD in_set_dropD)

lemma live_inv_init: "live_inv live_init"
  by (simp add: live_inv_def live_init_def)

lemma live_inv_effects: "live_inv s \<Longrightarrow> live_inv (run_effects s)"
  by (auto simp: live_inv_def run_effects_def cancel_def list_all_iff)

lemma live_inv_frame:
  "live_inv (x\<lparr>console := a\<rparr>) = live_inv x"
  "live_inv (x\<lparr>loading := b\<rparr>) = live_inv x"
  "live_inv (x\<lparr>dev_load := b\<rparr>) = live_inv x"
  "live_inv (x\<lparr>alt_load := b\<rparr>) = live_inv x"
  "live_inv (x\<lparr>dev := d\<rparr>) = live_inv x"
  "live_inv (x\<lparr>sel := c\<rparr>) = live_inv x"
  "live_inv (x\<lparr>writes := w\<rparr>) = live_inv x"
  "live_inv (x\<lparr>telem := tr\<rparr>) = live_inv x"
  "live_inv (x\<lparr>thrMap := m\<rparr>) = live_inv x"
  "live_inv (x\<lparr>thr_loads := ls\<rparr>) = live_inv x"
  "live_inv (x\<lparr>chart_loads := cs\<rparr>) = live_inv x"
  "live_inv (x\<lparr>chartData := cd\<rparr>) = live_inv x"
  "live_inv (x\<lparr>altCropRecommendations := al\<rparr>) = live_inv x"
  by (simp_all add: live_inv_def)

lemma live_inv_drop: "live_inv x \<Longrightarrow> live_inv (x\<lparr>snap_loads := drop_nth k (snap_loads x)\<rparr>)"
  by (simp add: live_inv_def list_all_drop_nth)

lemma live_inv_step: "live_inv s \<Longrightarrow> live_inv (live_step s e)"
proof (cases e)
  case (DevLoaded res)
  assume "live_inv s"
  then show ?thesis
    by (simp add: DevLoaded live_inv_frame setCrop_def Let_def split: result.splits option.splits)
next
  case (CropChange c)
  assume "live_inv s"
  then show ?thesis
    by (simp add: CropChange handleCropChange_def setCrop_def Let_def live_inv_frame
             split: option.splits)
next
  case (WriteDone f)
  assume "live_inv s"
  then show ?thesis
    by (simp add: WriteDone live_inv_frame split: list.splits)
next
  case (SnapDone k res)
  assume i: "live_inv s"
  show ?thesis using i live_inv_drop[OF i, of k]
    by (simp add: SnapDone Let_def live_inv_frame split: result.splits)
next
  case (Push row)
  assume "live_inv s"
  then show ?thesis by (simp add: Push live_inv_frame)
next
  case (ThrDone k res)
  assume "live_inv s"
  then show ?thesis
    by (simp add: ThrDone Let_def live_inv_frame split: result.splits)
next
  case (AltDone res)
  assume "live_inv s"
  then show ?thesis
    by (simp add: AltDone live_inv_frame split: result.splits)
next
  case (ChartDone k res)
  assume "live_inv s"
  then show ?thesis
    by (simp add: ChartDone Let_def live_inv_frame split: result.splits)
next
  case Effects
  assume "live_inv s"
  then show ?thesis
    by (simp add: Effects live_inv_effects)
qed

lemma live_reach_inv: "live_reach s \<Longrightarrow> live_inv s"
  by (induction rule: live_reach.induct) (simp_all add: live_inv_init live_inv_step)

lemma live_reach_run: "live_reach s \<Longrightarrow> live_reach (live_run s es)"
  unfolding live_run_def
  by (induction es arbitrary: s) (simp_all add: reach_step)

lemma telem_step_cases:
  assumes i: "live_inv s" and h: "honest s e"
  shows "telem (live_step s e) = telem s \<or> telem (live_step s e) = None
       \<or> (\<exists>r. telem (live_step s e) = Some r \<and> crop r = channel s
               \<and> sel (live_step s e) = sel s)"
proof (cases e)
  case (DevLoaded res)
  then have "telem (live_step s e) = telem s"
    by (simp add: setCrop_def Let_def split: result.splits option.splits)
  then show ?thesis by simp
next
  case (CropChange c)
  then have "telem (live_step s e) = telem s"
    by (simp add: handleCropChange_def setCrop_def Let_def split: option.splits)
  then show ?thesis by simp
next
  case (WriteDone f)
  then have "telem (live_step s e) = telem s"
    by (simp split: list.splits)
  then show ?thesis by simp
next
  case (SnapDone k res)
  show ?thesis
  proof (cases "k < length (snap_loads s) \<and> \<not> cancelled (snap_loads s ! k)")
    case False
    then have "telem (live_step s e) = telem s"
      by (auto simp: SnapDone Let_def split: result.splits)
    then show ?thesis by simp
  next
    case True
    then have o: "origin (snap_loads s ! k) = channel s"
      using i by (auto simp: live_inv_def list_all_length)
    show ?thesis
    proof (cases res)
      case Err
      then have "telem (live_step s e) = telem s"
        by (simp add: SnapDone Let_def)
      then show ?thesis by simp
    next
      case (Data d)
      then have t: "telem (live_step s e) = d" and c: "sel (live_step s e) = sel s"
        using True by (simp_all add: SnapDone Let_def)
      show ?thesis
      proof (cases d)
        case None
        then show ?thesis using t by simp
      next
        case (Some r)
        then have "crop r = channel s"
          using h True o by (simp add: SnapDone Data)
        then show ?thesis using t c Some by simp
      qed
    qed
  qed
next
  case (Push row)
  then show ?thesis by simp
next
  case (ThrDone k res)
  then have "telem (live_step s e) = telem s"
    by (simp add: Let_def split: result.splits)
  then show ?thesis by simp
next
  case (AltDone res)
  then have "telem (live_step s e) = telem s"
    by (simp split: result.splits)
  then show ?thesis by simp
next
  case (ChartDone k res)
  then have "telem (live_step s e) = telem s"
    by (simp add: Let_def split: result.splits)
  then show ?thesis by simp
next
  case Effects
  then have "telem (live_step s e) = telem s"
    by (simp add: run_effects_def)
  then show ?thesis by simp
qed

text \<open>
  C3, as the code has it. In every reachable state, an event either leaves the current
  reading as it is, or clears it (a snapshot with no row), or stores a reading of the
  crop the open channel listens to, provided the store answers a snapshot query with a
  row of the crop asked for. That crop is the selected one once the effects have run
  for the selection; between a change of the selection and that run it is still the
  previous crop, and a reading of the previous crop can still be stored. A change of
  the selection sets the selection and nothing else: it keeps the reading held,
  whatever its crop, and the channel, so the advisory functions keep reading the old
  reading until a snapshot or a push event replaces it.
\<close>

theorem reading_writes_are_for_subscribed_crop:
  assumes "live_reach s" and "honest s e"
  shows "(telem (live_step s e) = telem s \<or> telem (live_step s e) = None
          \<or> (\<exists>r. telem (live_step s e) = Some r \<and> crop r = channel s))
       \<and> (channel s = sel s \<longrightarrow>
            telem (live_step s e) = telem s \<or> telem (live_step s e) = None
            \<or> (\<exists>r. telem (live_step s e) = Some r \<and> crop r = sel (live_step s e)))
       \<and> channel (live_step s Effects) = sel s
       \<and> sel (live_step s Effects) = sel s
       \<and> telem (handleCropChange c s) = telem s
       \<and> sel (handleCropChange c s) = c
       \<and> channel (handleCropChange c s) = channel s"
proof -
  have a: "telem (live_step s e) = telem s \<or> telem (live_step s e) = None
           \<or> (\<exists>r. telem (live_step s e) = Some r \<and> crop r = channel s
                   \<and> sel (live_step s e) = sel s)"
    using assms by (intro telem_step_cases live_reach_inv)
  have b: "channel (live_step s Effects) = sel s \<and> sel (live_step s Effects) = sel s"
    by (simp add: run_effects_def)
  have c: "telem (handleCropChange c s) = telem s \<and> sel (handleCropChange c s) = c
           \<and> channel (handleCropChange c s) = channel s"
    by (simp add: handleCropChange_def setCrop_def Let_def split: option.splits)
  show ?thesis
    using a b c by auto
qed

lemma crop_telem_dry: "crop telem_dry = ''pechay''"
  by (simp add: telem_dry_def)

lemma crop_telem_new: "crop telem_new = ''pechay''"
  by (simp add: telem_new_def telem_dry_def)

theorem reading_writes_are_for_subscribed_crop_witness:
  "live_reach live_init
   \<and> honest live_init (SnapDone 0 (Data (Some telem_dry)))
   \<and> channel live_init = sel live_init
   \<and> telem (live_step live_init (SnapDone 0 (Data (Some telem_dry)))) = Some telem_dry
   \<and> crop telem_dry = sel (live_step live_init (SnapDone 0 (Data (Some telem_dry))))
   \<and> telem (handleCropChange ''okra'' live_init) = telem live_init
   \<and> sel (handleCropChange ''okra'' live_init) = ''okra''
   \<and> channel (handleCropChange ''okra'' live_init) = ''pechay''
   \<and> channel (live_step (handleCropChange ''okra'' live_init) Effects) = ''okra''"
proof -
  have r: "live_reach live_init"
    by (rule reach_init)
  have h: "honest live_init (SnapDone 0 (Data (Some telem_dry)))"
    by (simp add: live_init_def crop_telem_dry)
  have t: "telem (live_step live_init (SnapDone 0 (Data (Some telem_dry)))) = Some telem_dry"
    by (simp add: live_init_def Let_def)
  have n: "telem live_init = None"
    by (simp add: live_init_def)
  have c: "channel live_init = sel live_init" and p: "channel live_init = ''pechay''"
    by (simp_all add: live_init_def)
  have e: "channel (live_step (handleCropChange ''okra'' live_init) Effects) = ''okra''"
    by (simp add: run_effects_def handleCropChange_def setCrop_def live_init_def)
  note th = reading_writes_are_for_subscribed_crop [OF r h, of "''okra''", unfolded t n]
  show ?thesis
    using th r h c p e t n by (auto simp del: live_step.simps honest.simps)
qed

lemma run_stale:
  "telem (live_run live_init trace_stale) = Some telem_dry
   \<and> sel (live_run live_init trace_stale) = ''okra''
   \<and> channel (live_run live_init trace_stale) = ''pechay''
   \<and> thrMap (live_run live_init trace_stale) = [''moist_pct'' \<mapsto> thr_moist]
   \<and> altCropRecommendations (live_run live_init trace_stale) = alts_demo"
  by (simp add: live_run_def trace_stale_def live_init_def Let_def drop_nth_def
      handleCropChange_def setCrop_def thr_map_of_def thr_moist_def)

lemma run_dev_stale:
  "sel (live_run live_init trace_dev_stale) = ''okra''
   \<and> telem (live_run live_init trace_dev_stale) = Some telem_new"
  by (simp add: live_run_def trace_dev_stale_def live_init_def Let_def drop_nth_def
      setCrop_def dev_okra_def crop_telem_new)

text \<open>
  C3, as the claim states it, fails: after a snapshot for pechay has been stored and the
  selection has changed to okra, the state is reachable, the selected crop is okra, the
  current reading is still the pechay reading, and \<open>buildAltReco\<close> is computed from it.
  And when the device row sets the selection to okra, a push event for pechay that
  arrives before the effects have run is stored while okra is selected.
\<close>

theorem stale_reading_counterexample:
  "live_reach (live_run live_init trace_stale)
   \<and> sel (live_run live_init trace_stale) = ''okra''
   \<and> telem (live_run live_init trace_stale) = Some telem_dry
   \<and> crop telem_dry = ''pechay''
   \<and> buildAltReco (live_run live_init trace_stale)
       = bullet @ '' Based on your current soil conditions, consider switching to one of the following alternative crops: Okra.''
   \<and> live_reach (live_run live_init trace_dev_stale)
   \<and> sel (live_run live_init trace_dev_stale) = ''okra''
   \<and> telem (live_run live_init trace_dev_stale) = Some telem_new
   \<and> crop telem_new = ''pechay''"
proof -
  have r: "live_reach (live_run live_init trace_stale)"
    by (rule live_reach_run) (rule reach_init)
  have q: "live_reach (live_run live_init trace_dev_stale)"
    by (rule live_reach_run) (rule reach_init)
  have b: "buildAltReco (live_run live_init trace_stale)
             = altReco (Some telem_dry) [''moist_pct'' \<mapsto> thr_moist] alts_demo"
    by (simp add: buildAltReco_def run_stale)
  show ?thesis
    using r q
    by (simp add: run_stale run_dev_stale crop_telem_dry crop_telem_new b alt_reco_with_rule)
qed

text \<open>
  C5, as the code has it. A snapshot completion with data sets the current reading to
  its result whenever its load is in flight and its flag is not set, and leaves the
  reading alone otherwise and on error. No timestamp is read: after a push event,
  whatever its \<open>upd_at\<close>, the snapshot result still replaces the reading.
\<close>

theorem snapshot_applied_without_timestamp_check:
  "telem (live_step s (SnapDone k (Data d)))
     = (if k < length (snap_loads s) \<and> \<not> cancelled (snap_loads s ! k) then d else telem s)
   \<and> telem (live_step s (SnapDone k Err)) = telem s
   \<and> telem (live_step (live_step s (Push row)) (SnapDone k (Data d)))
       = (if k < length (snap_loads s) \<and> \<not> cancelled (snap_loads s ! k) then d
          else if crop row = channel s then Some row else telem s)"
  by (simp add: Let_def)

text \<open>
  C5, as the claim states it, fails: a push update for the selected crop with a strictly
  later \<open>upd_at\<close> arrives while the first snapshot load is in flight; the snapshot
  then completes and replaces it with the older reading.
\<close>

theorem snapshot_overwrites_push_counterexample:
  "upd_at telem_dry < upd_at telem_new
   \<and> crop telem_new = sel live_init
   \<and> telem (live_run live_init [Push telem_new]) = Some telem_new
   \<and> telem (live_run live_init [Push telem_new, SnapDone 0 (Data (Some telem_dry))]) = Some telem_dry
   \<and> telem_dry \<noteq> telem_new"
proof -
  have u: "upd_at telem_dry < upd_at telem_new"
    by (simp add: telem_dry_def telem_new_def)
  have d: "telem_dry \<noteq> telem_new"
    using u by auto
  have s: "crop telem_new = sel live_init"
    by (simp add: crop_telem_new live_init_def)
  have p: "telem (live_run live_init [Push telem_new]) = Some telem_new"
    by (simp add: live_run_def crop_telem_new live_init_def)
  have q: "telem (live_run live_init [Push telem_new, SnapDone 0 (Data (Some telem_dry))]) = Some telem_dry"
    by (simp add: live_run_def crop_telem_new live_init_def Let_def)
  show ?thesis using u d s p q by simp
qed

text \<open>
  C8. \<open>handleCropChange c\<close> sets the selection to \<open>c\<close> before the write is issued
  (and issues it only when a device row is known); the completion of a write, failed or
  not, leaves the selection as it is, so the selection is still \<open>c\<close> after it; a
  failed write appends one message to the console and a successful one nothing.
\<close>

theorem selection_not_rolled_back:
  "sel (handleCropChange c s) = c
   \<and> writes (handleCropChange c s) = (if dev s = None then writes s else writes s @ [c])
   \<and> sel (live_step (handleCropChange c s) (WriteDone failed)) = c
   \<and> sel (live_step s' (WriteDone failed)) = sel s'
   \<and> console (live_step s' (WriteDone True))
       = (if writes s' = [] then console s' else console s' @ [''Error updating cur_crop:''])
   \<and> console (live_step s' (WriteDone False)) = console s'"
proof -
  have a: "sel (handleCropChange c s) = c"
    by (simp add: handleCropChange_def setCrop_def Let_def split: option.splits)
  have b: "writes (handleCropChange c s) = (if dev s = None then writes s else writes s @ [c])"
    by (simp add: handleCropChange_def setCrop_def Let_def split: option.splits)
  have w: "sel (live_step x (WriteDone failed)) = sel x" for x
    by (simp split: list.splits)
  have l: "console (live_step s' (WriteDone True))
             = (if writes s' = [] then console s' else console s' @ [''Error updating cur_crop:''])"
    by (simp split: list.splits)
  have m: "console (live_step s' (WriteDone False)) = console s'"
    by (simp split: list.splits)
  have n: "sel (live_step (handleCropChange c s) (WriteDone failed)) = c"
    by (simp only: w a)
  show ?thesis
    by (intro conjI a b n w l m)
qed

lemma crop_hist_none: "crop hist_none = ''pechay''"
  by (simp add: hist_none_def)

text \<open>
  C4, evaluated where the code departs from it. On the Analytics page the history load
  issued for pechay resolves after the selection has changed to okra and after okra's own
  load: the rows shown for okra are the pechay rows. The chart fetch of the Live page
  does the same. The snapshot load of the Live page, which keeps a \<open>cancelled\<close> flag,
  is discarded in the same situation once the cleanup of its effect has run.
\<close>

theorem late_history_overwrites_evaluation:
  "an_crop (an_run an_init trace_late_hist) = ''okra''
   \<and> rows (an_run an_init trace_late_hist) = [hist_none]
   \<and> crop hist_none = ''pechay''
   \<and> sel (live_run live_init trace_late_chart) = ''okra''
   \<and> chartData (live_run live_init trace_late_chart) = [chart_pt hist_none]
   \<and> telem (live_run live_init trace_late_snap) = None"
  by (simp add: an_run_def an_init_def trace_late_hist_def crop_hist_none drop_nth_def Let_def
      live_run_def live_init_def trace_late_chart_def trace_late_snap_def handleCropChange_def
      setCrop_def run_effects_def cancel_def)

end
